theory Spec2Isabelle
  imports Complex_Main "HOL-Library.Sublist"
begin

section \<open>Python values, errors and source references\<close>

text \<open>
  A Source object is mutable and compared by identity, so the model names it by a
  reference. The member list \<open>Collection.sources\<close> is a Python list of such references:
  every path of the class that appends to it is guarded by \<open>isSource\<close>.
\<close>

type_synonym ref = nat

text \<open>
  The Python values that can reach the arguments of the Collection methods: the
  \<open>*sources\<close> tuple of \<open>__init__\<close> and \<open>addSources\<close>, the \<open>dupWarning\<close>
  keyword and the \<open>source_ref\<close> of \<open>removeSource\<close>. A Collection argument is read
  only through its \<open>sources\<close> attribute, so it carries that list.
\<close>

datatype pyobj =
    IntObj int
  | BoolObj bool
  | NoneObj
  | StrObj string
  | SourceObj ref
  | CollectionObj "ref list"
  | ListObj "pyobj list"
  | TupleObj "pyobj list"

datatype error =
    AssertionError
  | IndexError
  | ValueError
  | AttributeError
  | InvalidSourceError
  | DegenerateAxisError
  | FieldEvaluationError string

text \<open>Python truth value of an object (\<open>bool(x)\<close>).\<close>

fun truthy :: "pyobj \<Rightarrow> bool" where
  "truthy (IntObj i) = (i \<noteq> 0)"
| "truthy (BoolObj b) = b"
| "truthy NoneObj = False"
| "truthy (StrObj s) = (s \<noteq> [])"
| "truthy (SourceObj r) = True"
| "truthy (CollectionObj m) = True"
| "truthy (ListObj l) = (l \<noteq> [])"
| "truthy (TupleObj l) = (l \<noteq> [])"

text \<open>The test \<open>dupWarning is True\<close>: identity with the singleton \<open>True\<close>.\<close>

definition is_True :: "pyobj \<Rightarrow> bool" where
  "is_True v = (v = BoolObj True)"

section \<open>Collection registry\<close>

text \<open>
  Modelled from the spec: \<open>magpylib._lib.utility.isSource\<close> belongs to a module
  that is absent. The spec admits as a member exactly a Source (one of the six
  variants BoxMagnet, CylinderMagnet, SphereMagnet, LineCurrent, CircularCurrent,
  Dipole); every other object is refused.
\<close>

fun isSource :: "pyobj \<Rightarrow> bool" where
  "isSource (SourceObj r) = True"
| "isSource _ = False"

text \<open>
  Modelled from the spec: \<open>magpylib._lib.utility.addUniqueSource\<close> belongs to a module
  that is absent. The spec has a Source reference appear at most once, by identity,
  and records that the source behaviour on a forbidden duplicate is to drop it with a
  warning rather than to raise: the list is returned unchanged.
\<close>

definition addUniqueSource :: "ref \<Rightarrow> ref list \<Rightarrow> ref list" where
  "addUniqueSource source sourceList =
     (if source \<in> set sourceList then sourceList else sourceList @ [source])"

text \<open>
  One reference under the duplicate policy, as the \<open>else\<close> branch of the two loops
  writes it: \<open>addUniqueSource\<close> when \<open>dupWarning is True\<close>, \<open>self.sources += [s]\<close>
  otherwise.
\<close>

definition addOne :: "ref list \<Rightarrow> ref \<Rightarrow> pyobj \<Rightarrow> ref list" where
  "addOne sourceList r dupWarning =
     (if is_True dupWarning then addUniqueSource r sourceList else sourceList @ [r])"

text \<open>The members of a Collection argument, each under the duplicate policy.\<close>

fun addRefs :: "ref list \<Rightarrow> ref list \<Rightarrow> pyobj \<Rightarrow> ref list" where
  "addRefs sourceList [] dupWarning = sourceList"
| "addRefs sourceList (r # rs) dupWarning = addRefs (addOne sourceList r dupWarning) rs dupWarning"

text \<open>
  Modelled from the spec: \<open>magpylib._lib.utility.addListToCollection\<close> belongs to a
  module that is absent. The spec flattens nested Collections and list/sequence arguments
  into the flat member list, applies the duplicate policy as each element is considered,
  and fails with \<open>InvalidSourceError\<close> on an element that is neither a Source, a
  Collection, nor a sequence of such. The flag is read as the call sites read it.
  The list is mutated in place, so a failure leaves the elements added before it: the
  result is the raised error, if any, together with the list as it then stands.
\<close>

fun addListToCollection :: "ref list \<Rightarrow> pyobj list \<Rightarrow> pyobj \<Rightarrow> error option \<times> ref list"
  and addElement :: "ref list \<Rightarrow> pyobj \<Rightarrow> pyobj \<Rightarrow> error option \<times> ref list"
where
  "addListToCollection sourceList [] dupWarning = (None, sourceList)"
| "addListToCollection sourceList (x # xs) dupWarning =
     (case addElement sourceList x dupWarning of
        (None, sl) \<Rightarrow> addListToCollection sl xs dupWarning
      | (Some e, sl) \<Rightarrow> (Some e, sl))"
| "addElement sourceList (SourceObj r) dupWarning = (None, addOne sourceList r dupWarning)"
| "addElement sourceList (CollectionObj m) dupWarning = (None, addRefs sourceList m dupWarning)"
| "addElement sourceList (ListObj l) dupWarning = addListToCollection sourceList l dupWarning"
| "addElement sourceList (TupleObj l) dupWarning = addListToCollection sourceList l dupWarning"
| "addElement sourceList (IntObj i) dupWarning = (Some InvalidSourceError, sourceList)"
| "addElement sourceList (BoolObj b) dupWarning = (Some InvalidSourceError, sourceList)"
| "addElement sourceList NoneObj dupWarning = (Some InvalidSourceError, sourceList)"
| "addElement sourceList (StrObj s) dupWarning = (Some InvalidSourceError, sourceList)"

text \<open>
  The body of the loop \<open>for s in sources\<close>, shared word for word by \<open>__init__\<close> and
  \<open>addSources\<close>: a Collection hands its member list to \<open>addListToCollection\<close>, a
  list or tuple is handed over as it is, and anything else must pass \<open>isSource\<close>
  (else the \<open>assert\<close> fails) and is added under the duplicate policy.
\<close>

fun addArg :: "ref list \<Rightarrow> pyobj \<Rightarrow> pyobj \<Rightarrow> error option \<times> ref list" where
  "addArg self_sources (CollectionObj m) dupWarning =
     addListToCollection self_sources (map SourceObj m) dupWarning"
| "addArg self_sources (ListObj l) dupWarning = addListToCollection self_sources l dupWarning"
| "addArg self_sources (TupleObj l) dupWarning = addListToCollection self_sources l dupWarning"
| "addArg self_sources (SourceObj r) dupWarning =
     (None, if is_True dupWarning then addUniqueSource r self_sources else self_sources @ [r])"
| "addArg self_sources s dupWarning = (Some AssertionError, self_sources)"

text \<open>
  \<open>Collection.addSources(*sources, dupWarning)\<close>: the loop over the arguments, which
  stops at the first raise and leaves \<open>self.sources\<close> as mutated so far.
\<close>

fun addSources :: "ref list \<Rightarrow> pyobj list \<Rightarrow> pyobj \<Rightarrow> error option \<times> ref list" where
  "addSources self_sources [] dupWarning = (None, self_sources)"
| "addSources self_sources (s # sources) dupWarning =
     (case addArg self_sources s dupWarning of
        (None, sl) \<Rightarrow> addSources sl sources dupWarning
      | (Some e, sl) \<Rightarrow> (Some e, sl))"

text \<open>
  \<open>Collection.__init__(*sources, dupWarning)\<close>: the same loop from the empty list; a
  raise leaves no Collection behind.
\<close>

definition Collection_init :: "pyobj list \<Rightarrow> pyobj \<Rightarrow> error + ref list" where
  "Collection_init sources dupWarning =
     (case addSources [] sources dupWarning of
        (None, sl) \<Rightarrow> Inr sl
      | (Some e, sl) \<Rightarrow> Inl e)"

text \<open>
  \<open>list.pop(i)\<close>: a negative index counts from the end; an index outside the list
  raises IndexError and leaves the list as it was.
\<close>

definition list_pop :: "'a list \<Rightarrow> int \<Rightarrow> error + ('a \<times> 'a list)" where
  "list_pop xs i =
     (let n = int (length xs); j = (if i < 0 then i + n else i)
      in if 0 \<le> j \<and> j < n
         then Inr (xs ! nat j, take (nat j) xs @ drop (Suc (nat j)) xs)
         else Inl IndexError)"

text \<open>\<open>list.remove(x)\<close>: the first equal entry goes; ValueError when there is none.\<close>

definition list_remove :: "'a list \<Rightarrow> 'a \<Rightarrow> error + 'a list" where
  "list_remove xs x = (if x \<in> set xs then Inr (remove1 x xs) else Inl ValueError)"

text \<open>
  The state a Collection method can touch: the Source objects (position, orientation
  angle and axis, by reference) and the member list of the Collection.
\<close>

type_synonym vec3 = "real \<times> real \<times> real"

record source =
  position :: vec3
  angle :: real
  axis :: vec3

record state =
  heap :: "ref \<Rightarrow> source"
  sources :: "ref list"

text \<open>
  \<open>Collection.removeSource(source_ref=-1)\<close>: returns the popped or removed member
  and the new state. A bool is not of type \<open>int\<close> for \<open>type(source_ref) == int\<close>.
\<close>

fun removeSource :: "state \<Rightarrow> pyobj \<Rightarrow> error + (ref \<times> state)" where
  "removeSource st (IntObj i) =
     (case list_pop (sources st) i of
        Inl e \<Rightarrow> Inl e
      | Inr (r, rest) \<Rightarrow> Inr (r, st\<lparr>sources := rest\<rparr>))"
| "removeSource st (SourceObj r) =
     (case list_remove (sources st) r of
        Inl e \<Rightarrow> Inl e
      | Inr rest \<Rightarrow> Inr (r, st\<lparr>sources := rest\<rparr>))"
| "removeSource st source_ref = Inl AssertionError"


section \<open>Superposition evaluator\<close>

text \<open>
  A member's field value is a numpy array of three numbers. What \<open>sum\<close> returns is
  either such an array or, when nothing was added, its start value, the Python
  integer \<open>0\<close>.
\<close>

datatype pyval = PyInt int | Arr3 vec3

definition vadd :: "vec3 \<Rightarrow> vec3 \<Rightarrow> vec3" where
  "vadd u v = (case u of (ux, uy, uz) \<Rightarrow> case v of (vx, vy, vz) \<Rightarrow> (ux + vx, uy + vy, uz + vz))"

text \<open>Python \<open>+\<close> on these values; a scalar is broadcast over the array.\<close>

fun py_add :: "pyval \<Rightarrow> pyval \<Rightarrow> pyval" where
  "py_add (PyInt a) (PyInt b) = PyInt (a + b)"
| "py_add (PyInt a) (Arr3 v) = Arr3 (vadd (real_of_int a, real_of_int a, real_of_int a) v)"
| "py_add (Arr3 u) (PyInt b) = Arr3 (vadd u (real_of_int b, real_of_int b, real_of_int b))"
| "py_add (Arr3 u) (Arr3 v) = Arr3 (vadd u v)"

text \<open>The builtin \<open>sum(xs)\<close>: from the start value \<open>0\<close>, adding left to right.\<close>

definition py_sum :: "pyval list \<Rightarrow> pyval" where
  "py_sum xs = foldl py_add (PyInt 0) xs"

text \<open>
  A list comprehension \<open>[f(s) for s in xs]\<close> whose body may raise: the calls run in
  order and the first raise ends the comprehension.
\<close>

fun comprehension :: "('a \<Rightarrow> error + 'b) \<Rightarrow> 'a list \<Rightarrow> error + 'b list" where
  "comprehension f [] = Inr []"
| "comprehension f (x # xs) =
     (case f x of
        Inl e \<Rightarrow> Inl e
      | Inr y \<Rightarrow> (case comprehension f xs of Inl e \<Rightarrow> Inl e | Inr ys \<Rightarrow> Inr (y # ys)))"

text \<open>
  \<open>Collection.getB(pos)\<close>. The field capability of the members is outside the
  Collection class: \<open>src_getB s pos\<close> stands for \<open>s.getB(pos)\<close> at the member's
  current pose, a 3-vector or a raise.
\<close>

definition getB :: "(ref \<Rightarrow> 'p \<Rightarrow> error + vec3) \<Rightarrow> ref list \<Rightarrow> 'p \<Rightarrow> error + pyval" where
  "getB src_getB self_sources pos =
     (case comprehension (\<lambda>s. src_getB s pos) self_sources of
        Inl e \<Rightarrow> Inl e
      | Inr bs \<Rightarrow> Inr (py_sum (map Arr3 bs)))"

text \<open>
  The inner loop of \<open>getBsweep\<close> for one point index \<open>p\<close>: over the members in order,
  \<open>px += calcFields[src][p][0]\<close> and likewise for y and z. Indexing a member's
  result beyond its end raises IndexError.
\<close>

fun sum_fields :: "vec3 list list \<Rightarrow> nat \<Rightarrow> vec3 \<Rightarrow> error + vec3" where
  "sum_fields [] p acc = Inr acc"
| "sum_fields (cf # calcFields) p acc =
     (if p < length cf then sum_fields calcFields p (vadd acc (cf ! p)) else Inl IndexError)"

text \<open>
  \<open>Collection.getBsweep(pos, multiprocessing, processes)\<close>. The validity test
  \<open>isPosVector\<close> of the utility module and the members' own batch evaluation
  \<open>s.getBsweep(pos, multiprocessing=..., processes=...)\<close> are outside the Collection
  class and are taken as they come.
\<close>

definition getBsweep ::
  "('p \<Rightarrow> bool) \<Rightarrow> (ref \<Rightarrow> 'p list \<Rightarrow> bool \<Rightarrow> int \<Rightarrow> error + vec3 list) \<Rightarrow>
   ref list \<Rightarrow> 'p list \<Rightarrow> bool \<Rightarrow> int \<Rightarrow> error + vec3 list" where
  "getBsweep isPosVector src_getBsweep self_sources pos multiprocessing processes =
     (if \<not> list_all isPosVector pos then Inl AssertionError
      else case comprehension (\<lambda>s. src_getBsweep s pos multiprocessing processes) self_sources of
        Inl e \<Rightarrow> Inl e
      | Inr calcFields \<Rightarrow>
          comprehension (\<lambda>p. sum_fields calcFields p (0, 0, 0)) [0 ..< length pos])"

section \<open>Transform broadcaster\<close>

text \<open>Vector arithmetic on 3-vectors.\<close>

definition vsub :: "vec3 \<Rightarrow> vec3 \<Rightarrow> vec3" where
  "vsub u v = (case u of (ux, uy, uz) \<Rightarrow> case v of (vx, vy, vz) \<Rightarrow> (ux - vx, uy - vy, uz - vz))"

definition vscale :: "real \<Rightarrow> vec3 \<Rightarrow> vec3" where
  "vscale c v = (case v of (vx, vy, vz) \<Rightarrow> (c * vx, c * vy, c * vz))"

definition dot :: "vec3 \<Rightarrow> vec3 \<Rightarrow> real" where
  "dot u v = (case u of (ux, uy, uz) \<Rightarrow> case v of (vx, vy, vz) \<Rightarrow> ux * vx + uy * vy + uz * vz)"

definition cross :: "vec3 \<Rightarrow> vec3 \<Rightarrow> vec3" where
  "cross u v = (case u of (ux, uy, uz) \<Rightarrow> case v of (vx, vy, vz) \<Rightarrow>
     (uy * vz - uz * vy, uz * vx - ux * vz, ux * vy - uy * vx))"

definition vnorm :: "vec3 \<Rightarrow> real" where
  "vnorm v = sqrt (dot v v)"

text \<open>
  The angle-axis (Rodrigues) formula on its own, for a unit axis \<open>k\<close>, with \<open>c\<close> and
  \<open>s\<close> the cosine and the sine of the angle: the rotated vector is
  \<open>c d + s (k \<times> d) + (k \<cdot> d) (1 - c) k\<close>.
\<close>

definition rodrigues :: "real \<Rightarrow> real \<Rightarrow> vec3 \<Rightarrow> vec3 \<Rightarrow> vec3" where
  "rodrigues c s k d =
     vadd (vadd (vscale c d) (vscale s (cross k d))) (vscale (dot k d * (1 - c)) k)"

text \<open>
  Modelled from the spec: the rigid transform engine (\<open>angleAxisRotation\<close> of the
  private math library) is absent. \<open>rotateVector\<close> rotates \<open>vector - anchor\<close> by the
  angle, given in degrees, about the normalized axis with the angle-axis (Rodrigues)
  formula and adds the anchor back; a zero-length axis is an error and an angle of
  exactly 0 returns the input unchanged.
\<close>

definition rotateVector :: "vec3 \<Rightarrow> real \<Rightarrow> vec3 \<Rightarrow> vec3 \<Rightarrow> error + vec3" where
  "rotateVector v angleDegrees ax anchor =
     (if vnorm ax = 0 then Inl DegenerateAxisError
      else if angleDegrees = 0 then Inr v
      else
        let k = vscale (1 / vnorm ax) ax;
            t = angleDegrees * pi / 180;
            d = vsub v anchor
        in Inr (vadd (vadd (vadd (vscale (cos t) d) (vscale (sin t) (cross k d)))
                           (vscale (dot k d * (1 - cos t)) k))
                     anchor))"

text \<open>
  The \<open>anchor\<close> argument of \<open>rotate\<close>: the default is the sentinel string
  \<open>'self.position'\<close>, anything else is a point.
\<close>

datatype anchor = SelfPosition | AnchorPoint vec3

text \<open>
  Modelled from the spec: \<open>composeOrientation\<close> is absent, and the spec does not fix
  how the new angle and axis are computed (by quaternions or by rotation matrices). It
  fixes what they must stand for: applying the new orientation to a vector gives the
  same vector as applying the existing orientation and then the incoming rotation.
  \<open>composes_at\<close> says so of a candidate composition at one existing orientation and
  one incoming rotation, both applied about the origin.
\<close>

definition composes_at :: "(real \<Rightarrow> vec3 \<Rightarrow> real \<Rightarrow> vec3 \<Rightarrow> real \<times> vec3) \<Rightarrow> real \<Rightarrow> vec3 \<Rightarrow> real \<Rightarrow> vec3 \<Rightarrow> bool" where
  "composes_at composeOrientation existingAngle existingAxis incomingAngle incomingAxis =
     (\<forall>v. rotateVector v (fst (composeOrientation existingAngle existingAxis incomingAngle incomingAxis))
                         (snd (composeOrientation existingAngle existingAxis incomingAngle incomingAxis))
                         (0, 0, 0) =
          (case rotateVector v existingAngle existingAxis (0, 0, 0) of
             Inl e \<Rightarrow> Inl e
           | Inr w \<Rightarrow> rotateVector w incomingAngle incomingAxis (0, 0, 0)))"

text \<open>
  Modelled from the spec: the \<open>rotate\<close> method of the Source classes is absent. With
  the sentinel the anchor used for a member is that member's own current position;
  the position becomes \<open>rotateVector(position, angle, axis, anchor)\<close> and the
  orientation is composed with the incremental rotation. The composition is an
  argument, from the existing angle and axis and the incoming angle and axis to the new
  angle and axis; the properties below are stated for compositions that satisfy
  \<open>composes_at\<close> at the members they are applied to.
\<close>

definition source_rotate ::
  "(real \<Rightarrow> vec3 \<Rightarrow> real \<Rightarrow> vec3 \<Rightarrow> real \<times> vec3) \<Rightarrow> source \<Rightarrow> real \<Rightarrow> vec3 \<Rightarrow> anchor \<Rightarrow> error + source" where
  "source_rotate composeOrientation s angleDegrees ax anch =
     (let a = (case anch of SelfPosition \<Rightarrow> position s | AnchorPoint p \<Rightarrow> p)
      in case rotateVector (position s) angleDegrees ax a of
           Inl e \<Rightarrow> Inl e
         | Inr p \<Rightarrow>
             (case composeOrientation (angle s) (axis s) angleDegrees ax of
                (newAngle, newAxis) \<Rightarrow> Inr (s\<lparr>position := p, angle := newAngle, axis := newAxis\<rparr>)))"

text \<open>
  The loop of \<open>Collection.rotate\<close>: \<open>for s in self.sources: s.rotate(angle, axis,
  anchor=anchor)\<close>. Each call mutates the Source object it is made on; a raise ends
  the loop and leaves the members rotated so far as they are.
\<close>

fun rotate_loop ::
  "(real \<Rightarrow> vec3 \<Rightarrow> real \<Rightarrow> vec3 \<Rightarrow> real \<times> vec3) \<Rightarrow> (ref \<Rightarrow> source) \<Rightarrow> ref list \<Rightarrow>
   real \<Rightarrow> vec3 \<Rightarrow> anchor \<Rightarrow> error option \<times> (ref \<Rightarrow> source)" where
  "rotate_loop composeOrientation h [] angleDegrees ax anch = (None, h)"
| "rotate_loop composeOrientation h (s # ss) angleDegrees ax anch =
     (case source_rotate composeOrientation (h s) angleDegrees ax anch of
        Inl e \<Rightarrow> (Some e, h)
      | Inr s' \<Rightarrow> rotate_loop composeOrientation (h(s := s')) ss angleDegrees ax anch)"

text \<open>\<open>Collection.rotate(angle, axis, anchor='self.position')\<close>.\<close>

definition Collection_rotate ::
  "(real \<Rightarrow> vec3 \<Rightarrow> real \<Rightarrow> vec3 \<Rightarrow> real \<times> vec3) \<Rightarrow> state \<Rightarrow> real \<Rightarrow> vec3 \<Rightarrow> anchor \<Rightarrow>
   error option \<times> state" where
  "Collection_rotate composeOrientation st angleDegrees ax anch =
     (case rotate_loop composeOrientation (heap st) (sources st) angleDegrees ax anch of
        (err, h) \<Rightarrow> (err, st\<lparr>heap := h\<rparr>))"

section \<open>Example states\<close>

text \<open>A Source in its canonical pose at a given position: angle 0 about the z axis.\<close>

definition source_at :: "vec3 \<Rightarrow> source" where
  "source_at p = \<lparr>position = p, angle = 0, axis = (0, 0, 1)\<rparr>"


text \<open>
  The collection of the docstring of \<open>rotate\<close>: two Sources at the origin. The
  third Source sits at the point \<open>[1, 0, 0]\<close>.
\<close>

definition st_rotate :: state where
  "st_rotate = \<lparr>heap = (\<lambda>r. if r = 2 then source_at (1, 0, 0) else source_at (0, 0, 0)),
                 sources = [0, 1, 2]\<rparr>"

text \<open>The same Source entered twice, at the origin in its canonical pose.\<close>

definition st_twice :: state where
  "st_twice = \<lparr>heap = (\<lambda>r. source_at (0, 0, 0)), sources = [0, 0]\<rparr>"

text \<open>
  A composition for the examples. For a Source in its canonical pose (angle 0) the
  composed orientation is the incoming rotation itself, as the docstring of
  \<open>rotate\<close> shows (angle 90.0 about \<open>[0, 1, 0]\<close> after the call); otherwise the
  angles are added about the existing axis, which is the composition when the incoming
  rotation is about that same axis.
\<close>

definition compose_example :: "real \<Rightarrow> vec3 \<Rightarrow> real \<Rightarrow> vec3 \<Rightarrow> real \<times> vec3" where
  "compose_example existingAngle existingAxis incomingAngle incomingAxis =
     (if existingAngle = 0 then (incomingAngle, incomingAxis)
      else (existingAngle + incomingAngle, existingAxis))"

text \<open>
  Query points as Python lists of numbers, valid when they have three entries, and
  a field capability for the examples: Source \<open>s\<close> contributes \<open>s\<close> times the query
  point, except Source 3, whose evaluation raises. The batch evaluation of a member
  evaluates the points in order.
\<close>

definition isPosVector_example :: "real list \<Rightarrow> bool" where
  "isPosVector_example p = (length p = 3)"

definition getB_example :: "ref \<Rightarrow> real list \<Rightarrow> error + vec3" where
  "getB_example s p =
     (if s = 3 then Inl (FieldEvaluationError ''singular'')
      else Inr (real s * p ! 0, real s * p ! 1, real s * p ! 2))"

definition getBsweep_example :: "ref \<Rightarrow> real list list \<Rightarrow> bool \<Rightarrow> int \<Rightarrow> error + vec3 list" where
  "getBsweep_example s pos multiprocessing processes = comprehension (getB_example s) pos"

section \<open>Properties of the registry\<close>

text \<open>
  The \<open>assert\<close> of the two loops and of \<open>removeSource\<close> fails exactly on the
  objects that \<open>isSource\<close> refuses and that no earlier branch takes.
\<close>

lemma addListToCollection_no_AssertionError:
  "fst (addListToCollection sl xs dw) \<noteq> Some AssertionError"
  "fst (addElement sl x dw) \<noteq> Some AssertionError"
  by (induction sl xs dw and sl x dw rule: addListToCollection_addElement.induct)
     (auto split: prod.splits option.splits)

lemma addArg_AssertionError_iff:
  "fst (addArg self_sources s dupWarning) = Some AssertionError \<longleftrightarrow>
     \<not> isSource s \<and> (\<forall>m. s \<noteq> CollectionObj m) \<and> (\<forall>l. s \<noteq> ListObj l) \<and> (\<forall>l. s \<noteq> TupleObj l)"
  by (cases s) (auto simp: addListToCollection_no_AssertionError)

lemma removeSource_AssertionError_iff:
  "removeSource st source_ref = Inl AssertionError \<longleftrightarrow>
     \<not> isSource source_ref \<and> (\<forall>i. source_ref \<noteq> IntObj i)"
  by (cases source_ref) (auto simp: list_pop_def list_remove_def Let_def split: sum.splits prod.splits)

text \<open>
  A Collection argument and the list of its members are flattened alike.
\<close>

lemma addRefs_helper: "addListToCollection sl (map SourceObj m) dw = (None, addRefs sl m dw)"
  by (induction m arbitrary: sl) auto

lemma addUniqueSource_distinct: "distinct sl \<Longrightarrow> distinct (addUniqueSource r sl)"
  by (simp add: addUniqueSource_def)

lemma addOne_True_distinct: "distinct sl \<Longrightarrow> distinct (addOne sl r (BoolObj True))"
  by (simp add: addOne_def is_True_def addUniqueSource_distinct)

lemma addRefs_True_distinct: "distinct sl \<Longrightarrow> distinct (addRefs sl m (BoolObj True))"
  by (induction m arbitrary: sl) (auto simp: addOne_True_distinct)

lemma addList_True_distinct:
  "distinct sl \<Longrightarrow> distinct (snd (addListToCollection sl xs (BoolObj True)))"
  "distinct sl \<Longrightarrow> distinct (snd (addElement sl x (BoolObj True)))"
  by (induction sl xs "BoolObj True" and sl x "BoolObj True" rule: addListToCollection_addElement.induct)
     (auto simp: addOne_True_distinct addRefs_True_distinct split: prod.splits option.splits)

lemma addArg_True_distinct: "distinct sl \<Longrightarrow> distinct (snd (addArg sl s (BoolObj True)))"
  by (cases s) (auto simp: addList_True_distinct addUniqueSource_distinct is_True_def)

lemma addSources_True_distinct: "distinct sl \<Longrightarrow> distinct (snd (addSources sl args (BoolObj True)))"
proof (induction args arbitrary: sl)
  case Nil then show ?case by simp
next
  case (Cons s args)
  have d: "distinct (snd (addArg sl s (BoolObj True)))" using Cons.prems by (rule addArg_True_distinct)
  show ?case
  proof (cases "addArg sl s (BoolObj True)")
    case (Pair eo sl')
    with d have "distinct sl'" by simp
    with Pair Cons.IH[of sl'] show ?thesis by (cases eo) auto
  qed
qed

lemma addRefs_distinct_append:
  "distinct (sl @ m) \<Longrightarrow> addRefs sl m (BoolObj True) = sl @ m"
  by (induction m arbitrary: sl) (auto simp: addOne_def is_True_def addUniqueSource_def)

lemma addRefs_unchecked: "\<not> is_True dw \<Longrightarrow> addRefs sl m dw = sl @ m"
  by (induction m arbitrary: sl) (auto simp: addOne_def)




lemma count_list_distinct: "distinct xs \<Longrightarrow> x \<in> set xs \<Longrightarrow> count_list xs x = 1"
  by (induction xs) auto

text \<open>
  Claim C6: with \<open>dupWarning=True\<close> a Source reference never appears more than once.
  A Collection constructed with the check has a duplicate-free member list;
  \<open>addSources\<close> with the check keeps a duplicate-free list duplicate-free, also when it
  raises part way; and adding a reference that is already a member leaves the list as
  it is, with exactly one occurrence of that reference.
\<close>

theorem C6_unique:
  "(Collection_init args (BoolObj True) = Inr c \<longrightarrow> distinct c)
 \<and> (distinct c0 \<longrightarrow> distinct (snd (addSources c0 args (BoolObj True))))
 \<and> (distinct c0 \<and> r \<in> set c0 \<longrightarrow>
      addSources c0 [SourceObj r] (BoolObj True) = (None, c0) \<and> count_list c0 r = 1)"
proof (intro conjI impI)
  assume a: "Collection_init args (BoolObj True) = Inr c"
  have "distinct (snd (addSources [] args (BoolObj True)))"
    by (rule addSources_True_distinct) simp
  with a show "distinct c"
    by (auto simp: Collection_init_def split: prod.splits option.splits)
next
  assume "distinct c0"
  then show "distinct (snd (addSources c0 args (BoolObj True)))"
    by (rule addSources_True_distinct)
next
  assume "distinct c0 \<and> r \<in> set c0"
  then show "addSources c0 [SourceObj r] (BoolObj True) = (None, c0)"
    by (simp add: is_True_def addUniqueSource_def)
next
  assume "distinct c0 \<and> r \<in> set c0"
  then show "count_list c0 r = 1"
    by (simp add: count_list_distinct)
qed

theorem C6_unique_witness:
  "Collection_init [SourceObj 0, SourceObj 1, SourceObj 0] (BoolObj True) = Inr [0, 1] \<and> distinct [0, 1 :: nat]
   \<and> distinct (snd (addSources [0, 1] [ListObj [SourceObj 1, SourceObj 2]] (BoolObj True)))
   \<and> 1 \<in> set [0, 1 :: nat]
   \<and> addSources [0, 1] [SourceObj 1] (BoolObj True) = (None, [0, 1]) \<and> count_list [0, 1 :: nat] 1 = 1"
  using C6_unique [of "[SourceObj 0, SourceObj 1, SourceObj 0]" "[0, 1]" "[0, 1]" 1]
  by (simp add: Collection_init_def is_True_def addUniqueSource_def addOne_def)

text \<open>
  Claim C10: when \<open>dupWarning\<close> is anything but the boolean \<open>True\<close>, a Source
  argument is appended unconditionally by \<open>addSources\<close> and by the constructor, so the
  same reference can occur twice in the member list.
\<close>

theorem C10_unchecked:
  assumes "dupWarning \<noteq> BoolObj True"
  shows "addSources c [SourceObj r] dupWarning = (None, c @ [r])
       \<and> Collection_init [SourceObj r] dupWarning = Inr [r]
       \<and> Collection_init [SourceObj r, SourceObj r] dupWarning = Inr [r, r]
       \<and> count_list (snd (addSources (c @ [r]) [SourceObj r] dupWarning)) r \<ge> 2"
  using assms by (simp add: Collection_init_def is_True_def)

theorem C10_unchecked_witness:
  "truthy (IntObj 1) \<and> IntObj 1 \<noteq> BoolObj True
   \<and> addSources [5] [SourceObj 5] (IntObj 1) = (None, [5, 5])
   \<and> Collection_init [SourceObj 5, SourceObj 5] (IntObj 1) = Inr [5, 5]
   \<and> Collection_init [SourceObj 5, SourceObj 5] (BoolObj True) = Inr [5]"
  using C10_unchecked [of "IntObj 1" "[5]" 5]
  by (simp add: Collection_init_def is_True_def addUniqueSource_def)












section \<open>Properties of the field evaluation\<close>

lemma comprehension_all_ok:
  "(\<forall>x \<in> set xs. f x = Inr (g x)) \<Longrightarrow> comprehension f xs = Inr (map g xs)"
  by (induction xs) auto

lemma comprehension_Inr_length: "comprehension f xs = Inr ys \<Longrightarrow> length ys = length xs"
  by (induction xs arbitrary: ys) (auto split: sum.splits)

lemma comprehension_first_error:
  "(\<forall>t \<in> set pre. \<exists>v. f t = Inr v) \<Longrightarrow> f s = Inl e \<Longrightarrow> comprehension f (pre @ s # post) = Inl e"
  by (induction pre) (auto split: sum.splits)

lemma comprehension_some_error:
  "s \<in> set xs \<Longrightarrow> f s = Inl e \<Longrightarrow> \<exists>e' s'. s' \<in> set xs \<and> f s' = Inl e' \<and> comprehension f xs = Inl e'"
proof (induction xs)
  case Nil then show ?case by simp
next
  case (Cons x xs)
  show ?case
  proof (cases "f x")
    case (Inl e0)
    then show ?thesis by auto
  next
    case (Inr y)
    with Cons.prems have "s \<in> set xs" by auto
    from Cons.IH [OF this Cons.prems(2)] obtain e' s' where
      "s' \<in> set xs" "f s' = Inl e'" "comprehension f xs = Inl e'" by blast
    with Inr show ?thesis by auto
  qed
qed

lemma foldl_py_add_Arr3:
  "foldl py_add (Arr3 a) (map Arr3 bs) = Arr3 (foldl vadd a bs)"
  by (induction bs arbitrary: a) auto

lemma foldl_vadd_sums:
  "foldl vadd (ax, ay, az) bs =
     (ax + sum_list (map fst bs), ay + sum_list (map (fst \<circ> snd) bs), az + sum_list (map (snd \<circ> snd) bs))"
  by (induction bs arbitrary: ax ay az) (auto simp: vadd_def)

lemma py_sum_nonempty:
  "bs \<noteq> [] \<Longrightarrow> py_sum (map Arr3 bs) =
     Arr3 (sum_list (map fst bs), sum_list (map (fst \<circ> snd) bs), sum_list (map (snd \<circ> snd) bs))"
proof (cases bs)
  case Nil
  assume "bs \<noteq> []" with Nil show ?thesis by simp
next
  case (Cons b bs')
  obtain bx by' bz where b: "b = (bx, by', bz)" by (cases b)
  show ?thesis unfolding Cons py_sum_def
    by (simp add: b foldl_py_add_Arr3 vadd_def foldl_vadd_sums)
qed

text \<open>
  Claim C1: for a collection with at least one member whose members' \<open>getB\<close> all
  return at the point, \<open>Collection.getB\<close> returns the component-wise sum of the
  members' values, taken over the member list; with exactly one member it returns
  that member's value unmodified.
\<close>

theorem C1_getB_sum:
  "(self_sources \<noteq> [] \<and> (\<forall>s \<in> set self_sources. src_getB s pos = Inr (b s)) \<longrightarrow>
      getB src_getB self_sources pos =
        Inr (Arr3 (\<Sum>s\<leftarrow>self_sources. fst (b s),
                   \<Sum>s\<leftarrow>self_sources. fst (snd (b s)),
                   \<Sum>s\<leftarrow>self_sources. snd (snd (b s)))))
 \<and> (src_getB s1 pos = Inr v \<longrightarrow> getB src_getB [s1] pos = Inr (Arr3 v))"
proof (intro conjI impI)
  assume a: "self_sources \<noteq> [] \<and> (\<forall>s \<in> set self_sources. src_getB s pos = Inr (b s))"
  then have c: "comprehension (\<lambda>s. src_getB s pos) self_sources = Inr (map b self_sources)"
    by (simp add: comprehension_all_ok)
  from a have "map b self_sources \<noteq> []" by simp
  from py_sum_nonempty [OF this] c
  show "getB src_getB self_sources pos =
        Inr (Arr3 (\<Sum>s\<leftarrow>self_sources. fst (b s),
                   \<Sum>s\<leftarrow>self_sources. fst (snd (b s)),
                   \<Sum>s\<leftarrow>self_sources. snd (snd (b s))))"
    by (simp add: getB_def comp_def)
next
  assume "src_getB s1 pos = Inr v"
  then show "getB src_getB [s1] pos = Inr (Arr3 v)"
    by (cases v) (simp add: getB_def py_sum_def vadd_def)
qed

theorem C1_getB_sum_witness:
  "[1, 2] \<noteq> ([] :: ref list)
 \<and> getB_example 1 [1, 0, 2] = Inr (1, 0, 2)
 \<and> getB_example 2 [1, 0, 2] = Inr (2, 0, 4)
 \<and> getB getB_example [1, 2] [1, 0, 2] = Inr (Arr3 (3, 0, 6))
 \<and> getB getB_example [2] [1, 0, 2] = Inr (Arr3 (2, 0, 4))"
  using C1_getB_sum [of "[1, 2]" getB_example "[1, 0, 2]" "\<lambda>s. (real s, 0, 2 * real s)" 2 "(2, 0, 4)"]
  by (simp add: getB_example_def)

text \<open>
  Claim C4 at the empty collection: \<open>getB\<close> returns what \<open>sum([])\<close> returns, the
  Python integer \<open>0\<close>, which is not the 3-vector \<open>[0, 0, 0]\<close>.
\<close>

theorem C4_getB_empty:
  "getB src_getB [] pos = Inr (PyInt 0) \<and> getB src_getB [] pos \<noteq> Inr (Arr3 (0, 0, 0))"
  by (simp add: getB_def py_sum_def)

lemma comprehension_const:
  "comprehension (\<lambda>p. Inr c) xs = Inr (replicate (length xs) c)"
  by (induction xs) auto

text \<open>
  Claim C9: for the empty collection and a sequence of valid query points,
  \<open>getBsweep\<close> returns one entry per point, each of them \<open>[0, 0, 0]\<close>.
\<close>

theorem C9_getBsweep_empty:
  "list_all isPosVector pos \<Longrightarrow>
   getBsweep isPosVector src_getBsweep [] pos multiprocessing processes
     = Inr (replicate (length pos) (0, 0, 0))"
  using comprehension_const [of "(0, 0, 0) :: vec3" "[0 ..< length pos]"]
  by (simp add: getBsweep_def)

theorem C9_getBsweep_empty_witness:
  "list_all isPosVector_example [[1, 0, 2], [0, 0, 5]]
 \<and> getBsweep isPosVector_example getBsweep_example [] [[1, 0, 2], [0, 0, 5]] False 0
     = Inr [(0, 0, 0), (0, 0, 0)]"
  using C9_getBsweep_empty [of isPosVector_example "[[1, 0, 2], [0, 0, 5]]" getBsweep_example False 0]
  by (simp add: isPosVector_example_def)

lemma sum_fields_ok:
  "(\<forall>cf \<in> set calcFields. p < length cf) \<Longrightarrow>
   sum_fields calcFields p acc = Inr (foldl vadd acc (map (\<lambda>cf. cf ! p) calcFields))"
  by (induction calcFields arbitrary: acc) auto

lemma comprehension_cong_ok:
  "(\<And>x. x \<in> set xs \<Longrightarrow> f x = Inr (g x)) \<Longrightarrow> comprehension f xs = Inr (map g xs)"
  by (rule comprehension_all_ok) simp

lemma getBsweep_sums:
  assumes valid: "list_all isPosVector pos"
    and ok: "\<forall>s \<in> set self_sources. src_getBsweep s pos mp pr = Inr (cf s) \<and> length (cf s) = length pos"
  shows "getBsweep isPosVector src_getBsweep self_sources pos mp pr =
           Inr (map (\<lambda>p. foldl vadd (0, 0, 0) (map (\<lambda>s. cf s ! p) self_sources)) [0 ..< length pos])"
proof -
  have c: "comprehension (\<lambda>s. src_getBsweep s pos mp pr) self_sources = Inr (map cf self_sources)"
    using ok by (intro comprehension_all_ok) simp
  have "comprehension (\<lambda>p. sum_fields (map cf self_sources) p (0, 0, 0)) [0 ..< length pos] =
          Inr (map (\<lambda>p. foldl vadd (0, 0, 0) (map (\<lambda>s. cf s ! p) self_sources)) [0 ..< length pos])"
  proof (rule comprehension_cong_ok)
    fix p assume "p \<in> set [0 ..< length pos]"
    then have "\<forall>c \<in> set (map cf self_sources). p < length c" using ok by auto
    from sum_fields_ok [OF this]
    show "sum_fields (map cf self_sources) p (0, 0, 0) =
            Inr (foldl vadd (0, 0, 0) (map (\<lambda>s. cf s ! p) self_sources))"
      by (simp add: comp_def)
  qed
  with valid c show ?thesis by (simp add: getBsweep_def)
qed

lemma py_sum_foldl:
  "bs \<noteq> [] \<Longrightarrow> py_sum (map Arr3 bs) = Arr3 (foldl vadd (0, 0, 0) bs)"
  by (cases bs) (auto simp: py_sum_def foldl_py_add_Arr3 vadd_def)

text \<open>
  For a collection with at least one member, when the batch evaluation of each member
  agrees with its evaluation point by point, the sweep is in index correspondence with
  \<open>getB\<close>: entry \<open>i\<close> of the result is the vector \<open>getB\<close> returns at point \<open>i\<close>.
\<close>

lemma getBsweep_index_getB:
  assumes valid: "list_all isPosVector pos"
    and ne: "self_sources \<noteq> []"
    and single: "\<forall>s \<in> set self_sources. \<forall>p \<in> set pos. src_getB s p = Inr (b s p)"
    and batch: "\<forall>s \<in> set self_sources. src_getBsweep s pos mp pr = Inr (map (b s) pos)"
    and i: "i < length pos"
  shows "\<exists>result. getBsweep isPosVector src_getBsweep self_sources pos mp pr = Inr result
           \<and> length result = length pos
           \<and> getB src_getB self_sources (pos ! i) = Inr (Arr3 (result ! i))"
proof -
  let ?res = "map (\<lambda>p. foldl vadd (0, 0, 0) (map (\<lambda>s. map (b s) pos ! p) self_sources)) [0 ..< length pos]"
  have sw: "getBsweep isPosVector src_getBsweep self_sources pos mp pr = Inr ?res"
    using batch by (intro getBsweep_sums [OF valid]) simp
  have ri: "?res ! i = foldl vadd (0, 0, 0) (map (\<lambda>s. b s (pos ! i)) self_sources)"
    using i by simp
  have "comprehension (\<lambda>s. src_getB s (pos ! i)) self_sources = Inr (map (\<lambda>s. b s (pos ! i)) self_sources)"
    using single i by (intro comprehension_all_ok) simp
  moreover have "map (\<lambda>s. b s (pos ! i)) self_sources \<noteq> []" using ne by simp
  ultimately have "getB src_getB self_sources (pos ! i) =
      Inr (Arr3 (foldl vadd (0, 0, 0) (map (\<lambda>s. b s (pos ! i)) self_sources)))"
    using py_sum_foldl [of "map (\<lambda>s. b s (pos ! i)) self_sources"]
    by (simp add: getB_def del: map_map)
  with sw ri show ?thesis by simp
qed

text \<open>
  Claim C3 at the empty collection and one query point: \<open>getBsweep\<close> returns
  \<open>[[0, 0, 0]]\<close>, while \<open>getB\<close> at that point returns the integer \<open>0\<close>; the two differ.
\<close>

theorem C3_empty_collection_mismatch:
  "getBsweep (\<lambda>p. True) src_getBsweep [] [pos] multiprocessing processes = Inr [(0, 0, 0)]
 \<and> getB src_getB [] pos = Inr (PyInt 0)
 \<and> Arr3 (0, 0, 0) \<noteq> PyInt 0"
  by (simp add: getBsweep_def getB_def py_sum_def)

lemma getBsweep_result_length:
  "getBsweep isPosVector src_getBsweep self_sources pos mp pr = Inr result \<Longrightarrow> length result = length pos"
  by (auto simp: getBsweep_def dest: comprehension_Inr_length split: if_splits sum.splits)

text \<open>
  Claim C8: when the batch evaluation of a member raises, and the members before it
  return, \<open>getBsweep\<close> raises that error; whenever any member raises, \<open>getBsweep\<close>
  raises and returns nothing. The same holds for \<open>getB\<close>, where the error raised is
  one raised by a member. A result, when there is one, is complete: one entry per
  point, every member having been evaluated.
\<close>

theorem C8_errors_propagate:
  "(list_all isPosVector pos \<and> self_sources = pre @ s # post
      \<and> (\<forall>t \<in> set pre. \<exists>v. src_getBsweep t pos mp pr = Inr v)
      \<and> src_getBsweep s pos mp pr = Inl e \<longrightarrow>
      getBsweep isPosVector src_getBsweep self_sources pos mp pr = Inl e)
 \<and> (s \<in> set self_sources \<and> src_getBsweep s pos mp pr = Inl e \<longrightarrow>
      (\<exists>e'. getBsweep isPosVector src_getBsweep self_sources pos mp pr = Inl e'))
 \<and> (self_sources = pre @ s # post \<and> (\<forall>t \<in> set pre. \<exists>v. src_getB t p = Inr v)
      \<and> src_getB s p = Inl e \<longrightarrow>
      getB src_getB self_sources p = Inl e)
 \<and> (s \<in> set self_sources \<and> src_getB s p = Inl e \<longrightarrow>
      (\<exists>e' s'. s' \<in> set self_sources \<and> src_getB s' p = Inl e' \<and> getB src_getB self_sources p = Inl e'))
 \<and> (getBsweep isPosVector src_getBsweep self_sources pos mp pr = Inr result \<longrightarrow>
      length result = length pos
      \<and> (\<forall>t \<in> set self_sources. \<exists>v. src_getBsweep t pos mp pr = Inr v))
 \<and> (getB src_getB self_sources p = Inr tot \<longrightarrow>
      (\<forall>t \<in> set self_sources. \<exists>v. src_getB t p = Inr v))"
proof (intro conjI impI)
  assume a: "list_all isPosVector pos \<and> self_sources = pre @ s # post
      \<and> (\<forall>t \<in> set pre. \<exists>v. src_getBsweep t pos mp pr = Inr v)
      \<and> src_getBsweep s pos mp pr = Inl e"
  then have "comprehension (\<lambda>s. src_getBsweep s pos mp pr) (pre @ s # post) = Inl e"
    by (intro comprehension_first_error) auto
  with a show "getBsweep isPosVector src_getBsweep self_sources pos mp pr = Inl e"
    by (simp add: getBsweep_def)
next
  assume a: "s \<in> set self_sources \<and> src_getBsweep s pos mp pr = Inl e"
  from comprehension_some_error [of s self_sources "\<lambda>s. src_getBsweep s pos mp pr" e] a
  obtain e' where "comprehension (\<lambda>s. src_getBsweep s pos mp pr) self_sources = Inl e'" by blast
  then show "\<exists>e'. getBsweep isPosVector src_getBsweep self_sources pos mp pr = Inl e'"
    by (simp add: getBsweep_def)
next
  assume a: "self_sources = pre @ s # post \<and> (\<forall>t \<in> set pre. \<exists>v. src_getB t p = Inr v)
      \<and> src_getB s p = Inl e"
  then have "comprehension (\<lambda>s. src_getB s p) (pre @ s # post) = Inl e"
    by (intro comprehension_first_error) auto
  with a show "getB src_getB self_sources p = Inl e"
    by (simp add: getB_def)
next
  assume a: "s \<in> set self_sources \<and> src_getB s p = Inl e"
  from comprehension_some_error [of s self_sources "\<lambda>s. src_getB s p" e] a
  obtain e' s' where "s' \<in> set self_sources" "src_getB s' p = Inl e'"
     "comprehension (\<lambda>s. src_getB s p) self_sources = Inl e'" by blast
  then show "\<exists>e' s'. s' \<in> set self_sources \<and> src_getB s' p = Inl e' \<and> getB src_getB self_sources p = Inl e'"
    by (auto simp: getB_def)
next
  assume a: "getBsweep isPosVector src_getBsweep self_sources pos mp pr = Inr result"
  then show "length result = length pos" by (rule getBsweep_result_length)
  show "\<forall>t \<in> set self_sources. \<exists>v. src_getBsweep t pos mp pr = Inr v"
  proof
    fix t assume t: "t \<in> set self_sources"
    show "\<exists>v. src_getBsweep t pos mp pr = Inr v"
    proof (cases "src_getBsweep t pos mp pr")
      case (Inl e0)
      from comprehension_some_error [of t self_sources "\<lambda>s. src_getBsweep s pos mp pr" e0] t Inl
      obtain e' where "comprehension (\<lambda>s. src_getBsweep s pos mp pr) self_sources = Inl e'" by blast
      with a show ?thesis by (simp add: getBsweep_def split: if_splits)
    qed simp
  qed
next
  assume a: "getB src_getB self_sources p = Inr tot"
  show "\<forall>t \<in> set self_sources. \<exists>v. src_getB t p = Inr v"
  proof
    fix t assume t: "t \<in> set self_sources"
    show "\<exists>v. src_getB t p = Inr v"
    proof (cases "src_getB t p")
      case (Inl e0)
      from comprehension_some_error [of t self_sources "\<lambda>s. src_getB s p" e0] t Inl
      obtain e' where "comprehension (\<lambda>s. src_getB s p) self_sources = Inl e'" by blast
      with a show ?thesis by (simp add: getB_def)
    qed auto
  qed
qed

theorem C8_errors_propagate_witness:
  "list_all isPosVector_example [[1, 0, 2]]
 \<and> getBsweep_example 1 [[1, 0, 2]] False 0 = Inr [(1, 0, 2)]
 \<and> getBsweep_example 3 [[1, 0, 2]] False 0 = Inl (FieldEvaluationError ''singular'')
 \<and> getBsweep isPosVector_example getBsweep_example [1, 3, 2] [[1, 0, 2]] False 0
     = Inl (FieldEvaluationError ''singular'')
 \<and> getB getB_example [1, 3, 2] [1, 0, 2] = Inl (FieldEvaluationError ''singular'')
 \<and> getBsweep isPosVector_example getBsweep_example [1, 2] [[1, 0, 2]] False 0 = Inr [(3, 0, 6)]
 \<and> length [(3, 0, 6) :: vec3] = length [[1, 0, 2 :: real]]
 \<and> getB getB_example [1, 2] [1, 0, 2] = Inr (Arr3 (3, 0, 6))"
  using C8_errors_propagate [of isPosVector_example "[[1, 0, 2]]" "[1, 3, 2]" "[1]" 3 "[2]"
          getBsweep_example False 0 "FieldEvaluationError ''singular''" getB_example "[1, 0, 2]"]
        C8_errors_propagate [of isPosVector_example "[[1, 0, 2]]" "[1, 2]" "[1]" 2 "[]"
          getBsweep_example False 0 _ getB_example "[1, 0, 2]" "[(3, 0, 6)]" "Arr3 (3, 0, 6)"]
  by (simp add: isPosVector_example_def getBsweep_example_def getB_example_def
        getBsweep_def getB_def py_sum_def vadd_def)

section \<open>Properties of the rotation\<close>

lemma vnorm_zero_iff: "vnorm v = 0 \<longleftrightarrow> v = (0, 0, 0)"
proof (cases v)
  case (fields x y z)
  have "x * x + y * y + z * z = 0 \<longleftrightarrow> x = 0 \<and> y = 0 \<and> z = 0"
    using zero_le_square [of x] zero_le_square [of y] zero_le_square [of z]
    by (auto simp: add_nonneg_eq_0_iff)
  then show ?thesis by (simp add: fields vnorm_def dot_def)
qed

lemma rotateVector_at_anchor: "vnorm ax \<noteq> 0 \<Longrightarrow> rotateVector p ang ax p = Inr p"
  by (cases p; cases ax) (simp add: rotateVector_def Let_def vsub_def vscale_def cross_def dot_def vadd_def)

lemma source_rotate_ok:
  assumes "vnorm ax \<noteq> 0"
  shows "\<exists>p. rotateVector (position s) ang ax (case anch of SelfPosition \<Rightarrow> position s | AnchorPoint q \<Rightarrow> q) = Inr p
           \<and> source_rotate co s ang ax anch =
               Inr (s\<lparr>position := p, angle := fst (co (angle s) (axis s) ang ax),
                        axis := snd (co (angle s) (axis s) ang ax)\<rparr>)"
proof -
  let ?a = "case anch of SelfPosition \<Rightarrow> position s | AnchorPoint q \<Rightarrow> q"
  have "\<exists>p. rotateVector (position s) ang ax ?a = Inr p"
    using assms by (simp add: rotateVector_def Let_def del: split_paired_Ex)
  then obtain p where p: "rotateVector (position s) ang ax ?a = Inr p" ..
  then show ?thesis
    by (auto simp: source_rotate_def Let_def split: prod.splits)
qed

lemma source_rotate_self_position:
  "source_rotate co s ang ax SelfPosition = Inr s' \<Longrightarrow> position s' = position s"
proof -
  assume a: "source_rotate co s ang ax SelfPosition = Inr s'"
  then have nz: "vnorm ax \<noteq> 0"
    by (auto simp: source_rotate_def rotateVector_def Let_def split: if_splits)
  from a rotateVector_at_anchor [OF nz, where p = "position s" and ang = ang] show ?thesis
    by (auto simp: source_rotate_def Let_def split: prod.splits)
qed

lemma rotate_loop_ok:
  assumes "vnorm ax \<noteq> 0"
  shows "\<exists>h'. rotate_loop co h ss ang ax anch = (None, h')
           \<and> (\<forall>r. r \<notin> set ss \<longrightarrow> h' r = h r)
           \<and> (distinct ss \<longrightarrow> (\<forall>r \<in> set ss. source_rotate co (h r) ang ax anch = Inr (h' r)))"
proof (induction ss arbitrary: h)
  case Nil
  then show ?case by simp
next
  case (Cons s ss)
  from source_rotate_ok [OF assms, where s = "h s" and anch = anch and co = co and ang = ang]
  obtain s' where s': "source_rotate co (h s) ang ax anch = Inr s'" by blast
  from Cons.IH [of "h(s := s')"] obtain h' where
    run: "rotate_loop co (h(s := s')) ss ang ax anch = (None, h')"
    and out: "\<forall>r. r \<notin> set ss \<longrightarrow> h' r = (h(s := s')) r"
    and inn: "distinct ss \<longrightarrow> (\<forall>r \<in> set ss. source_rotate co ((h(s := s')) r) ang ax anch = Inr (h' r))"
    by blast
  have "rotate_loop co h (s # ss) ang ax anch = (None, h')" using s' run by simp
  moreover have "\<forall>r. r \<notin> set (s # ss) \<longrightarrow> h' r = h r" using out by auto
  moreover have "distinct (s # ss) \<longrightarrow> (\<forall>r \<in> set (s # ss). source_rotate co (h r) ang ax anch = Inr (h' r))"
  proof (intro impI ballI)
    fix r assume d: "distinct (s # ss)" and r: "r \<in> set (s # ss)"
    show "source_rotate co (h r) ang ax anch = Inr (h' r)"
    proof (cases "r = s")
      case True
      with d have "s \<notin> set ss" by simp
      with out have "h' s = s'" by simp
      with True s' show ?thesis by simp
    next
      case False
      with r have rin: "r \<in> set ss" by simp
      from d have "distinct ss" by simp
      with inn rin have "source_rotate co ((h(s := s')) r) ang ax anch = Inr (h' r)" by blast
      with False show ?thesis by simp
    qed
  qed
  ultimately show ?case by blast
qed

lemma rotate_loop_self_position:
  "rotate_loop co h ss ang ax SelfPosition = (err, h') \<Longrightarrow> position (h' r) = position (h r)"
proof (induction ss arbitrary: h)
  case Nil
  then show ?case by simp
next
  case (Cons s ss)
  show ?case
  proof (cases "source_rotate co (h s) ang ax SelfPosition")
    case (Inl e)
    with Cons.prems show ?thesis by simp
  next
    case (Inr s')
    with Cons.prems have "rotate_loop co (h(s := s')) ss ang ax SelfPosition = (err, h')" by simp
    from Cons.IH [OF this] have "position (h' r) = position ((h(s := s')) r)" .
    with source_rotate_self_position [OF Inr] show ?thesis by (cases "r = s") auto
  qed
qed

text \<open>
  The Rodrigues formula for a unit axis: rotating back by the opposite angle undoes a
  rotation, a rotation by an angle that is not a multiple of the full turn fixes
  exactly the vectors along its axis, and two rotations about the same axis add
  their angles.
\<close>

lemma rodrigues_inverse:
  assumes k: "dot k k = 1" and cs: "c * c + s * s = 1"
  shows "rodrigues c (- s) k (rodrigues c s k d) = d"
proof -
  obtain k1 k2 k3 where K: "k = (k1, k2, k3)" by (cases k)
  obtain d1 d2 d3 where D: "d = (d1, d2, d3)" by (cases d)
  from k K have k': "k1 * k1 + k2 * k2 + k3 * k3 = 1" by (simp add: dot_def)
  show ?thesis
    unfolding K D rodrigues_def vadd_def vscale_def cross_def dot_def
    apply (simp)
    apply (intro conjI)
    using k' cs apply algebra
    using k' cs apply algebra
    using k' cs apply algebra
    done
qed

lemma sum_squares3_zero:
  fixes a b c :: real
  shows "a * a + b * b + c * c = 0 \<longleftrightarrow> a = 0 \<and> b = 0 \<and> c = 0"
  using zero_le_square [of a] zero_le_square [of b] zero_le_square [of c]
  by (auto simp: add_nonneg_eq_0_iff)

lemma rodrigues_displacement:
  assumes k: "k1 * k1 + k2 * k2 + k3 * k3 = 1" and cs: "c * c + s * s = (1::real)"
    and r: "rodrigues c s (k1, k2, k3) (d1, d2, d3) = (r1, r2, r3)"
    and q: "q = k1 * d1 + k2 * d2 + k3 * d3"
  shows "(r1 - d1) * (r1 - d1) + (r2 - d2) * (r2 - d2) + (r3 - d3) * (r3 - d3) =
         2 * (1 - c) * ((d1 - q * k1) * (d1 - q * k1) + (d2 - q * k2) * (d2 - q * k2)
                        + (d3 - q * k3) * (d3 - q * k3))"
proof -
  from r have r1: "r1 = c * d1 + s * (k2 * d3 - k3 * d2) + q * (1 - c) * k1"
    and r2: "r2 = c * d2 + s * (k3 * d1 - k1 * d3) + q * (1 - c) * k2"
    and r3: "r3 = c * d3 + s * (k1 * d2 - k2 * d1) + q * (1 - c) * k3"
    by (simp_all add: rodrigues_def vadd_def vscale_def cross_def dot_def q)
  show ?thesis unfolding r1 r2 r3 q using k cs by algebra
qed

lemma rodrigues_fixed_iff:
  assumes k: "dot k k = 1" and cs: "c * c + s * s = 1" and c1: "c \<noteq> 1"
  shows "rodrigues c s k d = d \<longleftrightarrow> d = vscale (dot k d) k"
proof -
  obtain k1 k2 k3 where K: "k = (k1, k2, k3)" by (cases k)
  obtain d1 d2 d3 where D: "d = (d1, d2, d3)" by (cases d)
  obtain r1 r2 r3 where R: "rodrigues c s (k1, k2, k3) (d1, d2, d3) = (r1, r2, r3)"
    by (cases "rodrigues c s (k1, k2, k3) (d1, d2, d3)")
  define q where "q = k1 * d1 + k2 * d2 + k3 * d3"
  from k K have k': "k1 * k1 + k2 * k2 + k3 * k3 = 1" by (simp add: dot_def)
  note disp = rodrigues_displacement [OF k' cs R q_def]
  show ?thesis
  proof
    assume "rodrigues c s k d = d"
    with K D R have "r1 = d1" "r2 = d2" "r3 = d3" by simp_all
    with disp have "2 * (1 - c) * ((d1 - q * k1) * (d1 - q * k1) + (d2 - q * k2) * (d2 - q * k2)
                        + (d3 - q * k3) * (d3 - q * k3)) = 0" by simp
    with c1 have "(d1 - q * k1) * (d1 - q * k1) + (d2 - q * k2) * (d2 - q * k2)
                        + (d3 - q * k3) * (d3 - q * k3) = 0" by simp
    then have "d1 - q * k1 = 0 \<and> d2 - q * k2 = 0 \<and> d3 - q * k3 = 0"
      by (simp only: sum_squares3_zero)
    then show "d = vscale (dot k d) k"
      by (simp add: K D vscale_def dot_def q_def)
  next
    assume "d = vscale (dot k d) k"
    then have e: "d1 - q * k1 = 0" "d2 - q * k2 = 0" "d3 - q * k3 = 0"
      by (simp_all add: K D vscale_def dot_def q_def)
    with disp have "(r1 - d1) * (r1 - d1) + (r2 - d2) * (r2 - d2) + (r3 - d3) * (r3 - d3) = 0"
      by simp
    then have "r1 - d1 = 0 \<and> r2 - d2 = 0 \<and> r3 - d3 = 0"
      by (simp only: sum_squares3_zero)
    with K D R show "rodrigues c s k d = d" by simp
  qed
qed

lemma rodrigues_moves_some:
  assumes k: "dot k k = 1" and cs: "c * c + s * s = 1" and c1: "c \<noteq> 1"
  shows "\<exists>u. rodrigues c s k u \<noteq> u"
proof (rule ccontr)
  assume "\<not> (\<exists>u. rodrigues c s k u \<noteq> u)"
  then have all: "\<And>u. rodrigues c s k u = u" by blast
  obtain k1 k2 k3 where K: "k = (k1, k2, k3)" by (cases k)
  from k K have k': "k1 * k1 + k2 * k2 + k3 * k3 = 1" by (simp add: dot_def)
  from all [of "(1, 0, 0)"] rodrigues_fixed_iff [OF k cs c1, of "(1, 0, 0)"]
  have "(1, 0, 0) = vscale (dot k (1, 0, 0)) k" by simp
  then have a: "k1 * k1 = 1" by (simp add: K vscale_def dot_def)
  from all [of "(0, 1, 0)"] rodrigues_fixed_iff [OF k cs c1, of "(0, 1, 0)"]
  have "(0, 1, 0) = vscale (dot k (0, 1, 0)) k" by simp
  then have b: "k2 * k2 = 1" by (simp add: K vscale_def dot_def)
  from k' a b have "k3 * k3 = - 1" by simp
  with zero_le_square [of k3] show False by simp
qed

lemma vnorm_square: "vnorm v * vnorm v = dot v v"
proof (cases v)
  case (fields x y z)
  have "0 \<le> x * x + y * y + z * z"
    using zero_le_square [of x] zero_le_square [of y] zero_le_square [of z] by simp
  then show ?thesis by (simp add: vnorm_def dot_def fields)
qed

lemma unit_axis: "vnorm ax \<noteq> 0 \<Longrightarrow> dot (vscale (1 / vnorm ax) ax) (vscale (1 / vnorm ax) ax) = 1"
proof -
  assume nz: "vnorm ax \<noteq> 0"
  obtain x y z where A: "ax = (x, y, z)" by (cases ax)
  have "dot (vscale (1 / vnorm ax) ax) (vscale (1 / vnorm ax) ax)
        = dot ax ax / (vnorm ax * vnorm ax)"
    by (simp add: A dot_def vscale_def add_divide_distrib)
  also have "\<dots> = 1" using nz by (simp add: vnorm_square [symmetric])
  finally show ?thesis .
qed

lemma vadd_vsub_cancel: "vadd (vsub v a) a = v"
  by (cases v; cases a) (simp add: vadd_def vsub_def)

lemma vadd_right_eq_iff: "vadd r a = v \<longleftrightarrow> r = vsub v a"
  by (cases v; cases a; cases r) (auto simp: vadd_def vsub_def)

lemma vsub_zero: "vsub v (0, 0, 0) = v" and vadd_zero: "vadd v (0, 0, 0) = v"
  by (cases v, simp add: vsub_def vadd_def)+

lemma rodrigues_identity: "rodrigues 1 0 k d = d"
  by (cases k; cases d) (simp add: rodrigues_def vadd_def vscale_def cross_def dot_def)

lemma rotateVector_rodrigues:
  assumes "vnorm ax \<noteq> 0"
  shows "rotateVector v ang ax anchor =
           Inr (vadd (rodrigues (cos (ang * pi / 180)) (sin (ang * pi / 180))
                        (vscale (1 / vnorm ax) ax) (vsub v anchor)) anchor)"
proof (cases "ang = 0")
  case True
  with assms show ?thesis
    by (simp add: rotateVector_def rodrigues_identity vadd_vsub_cancel)
next
  case False
  with assms show ?thesis
    by (simp add: rotateVector_def Let_def rodrigues_def)
qed

lemma rotateVector_fixed_iff:
  assumes nz: "ax \<noteq> (0, 0, 0)" and c1: "cos (ang * pi / 180) \<noteq> 1"
  shows "rotateVector p ang ax P = Inr p \<longleftrightarrow> (\<exists>l. vsub p P = vscale l ax)"
proof -
  let ?n = "vnorm ax"
  let ?k = "vscale (1 / ?n) ax"
  let ?d = "vsub p P"
  let ?c = "cos (ang * pi / 180)" and ?s = "sin (ang * pi / 180)"
  from nz have n0: "?n \<noteq> 0" by (simp add: vnorm_zero_iff)
  have cs: "?c * ?c + ?s * ?s = 1" by (rule sin_cos_squared_add3)
  have "rotateVector p ang ax P = Inr p \<longleftrightarrow> rodrigues ?c ?s ?k ?d = ?d"
    by (simp add: rotateVector_rodrigues [OF n0] vadd_right_eq_iff)
  also have "\<dots> \<longleftrightarrow> ?d = vscale (dot ?k ?d) ?k"
    by (rule rodrigues_fixed_iff [OF unit_axis [OF n0] cs c1])
  also have "\<dots> \<longleftrightarrow> (\<exists>l. ?d = vscale l ax)"
  proof
    assume e: "?d = vscale (dot ?k ?d) ?k"
    have "vscale (dot ?k ?d) ?k = vscale (dot ?k ?d / ?n) ax"
      by (cases ax) (simp add: vscale_def)
    with e show "\<exists>l. ?d = vscale l ax" by metis
  next
    assume "\<exists>l. ?d = vscale l ax"
    then obtain l where l: "?d = vscale l ax" ..
    have "dot ?k (vscale l ax) = l * (dot ax ax / ?n)"
      by (cases ax) (simp add: vscale_def dot_def add_divide_distrib distrib_left mult.assoc mult.left_commute)
    also have "dot ax ax / ?n = ?n" using n0 by (simp add: vnorm_square [symmetric])
    finally have "dot ?k (vscale l ax) = l * ?n" .
    then have "vscale (dot ?k (vscale l ax)) ?k = vscale l ax"
      using n0 by (cases ax) (simp add: vscale_def)
    with l show "?d = vscale (dot ?k ?d) ?k" by simp
  qed
  finally show ?thesis .
qed

lemma orientation_changes:
  assumes nz: "ax \<noteq> (0, 0, 0)" and c1: "cos (ang * pi / 180) \<noteq> 1"
    and x: "x \<noteq> (0, 0, 0)" and comp: "composes_at co a x ang ax"
  shows "co a x ang ax \<noteq> (a, x)"
proof
  assume same: "co a x ang ax = (a, x)"
  from nz have n0: "vnorm ax \<noteq> 0" by (simp add: vnorm_zero_iff)
  from x have x0: "vnorm x \<noteq> 0" by (simp add: vnorm_zero_iff)
  let ?c = "cos (ang * pi / 180)" and ?s = "sin (ang * pi / 180)" and ?k = "vscale (1 / vnorm ax) ax"
  let ?ca = "cos (a * pi / 180)" and ?sa = "sin (a * pi / 180)" and ?kx = "vscale (1 / vnorm x) x"
  have cs: "?c * ?c + ?s * ?s = 1" by (rule sin_cos_squared_add3)
  have csa: "?ca * ?ca + (- ?sa) * (- ?sa) = 1" using sin_cos_squared_add3 [of "a * pi / 180"] by simp
  from rodrigues_moves_some [OF unit_axis [OF n0] cs c1]
  obtain u where u: "rodrigues ?c ?s ?k u \<noteq> u" ..
  define v where "v = rodrigues ?ca (- ?sa) ?kx u"
  have pre: "rodrigues ?ca ?sa ?kx v = u"
    using rodrigues_inverse [OF unit_axis [OF x0] csa, of u] by (simp add: v_def)
  from comp same have "rotateVector v a x (0, 0, 0) =
      (case rotateVector v a x (0, 0, 0) of Inl e \<Rightarrow> Inl e | Inr w \<Rightarrow> rotateVector w ang ax (0, 0, 0))"
    unfolding composes_at_def by (simp del: split_paired_All)
  then have "Inr u = rotateVector u ang ax (0, 0, 0)"
    by (simp add: rotateVector_rodrigues [OF x0] vsub_zero vadd_zero pre)
  then have "rodrigues ?c ?s ?k u = u"
    by (simp add: rotateVector_rodrigues [OF n0] vsub_zero vadd_zero)
  with u show False by contradiction
qed

text \<open>
  The composition of the examples is a composition in the sense of \<open>composes_at\<close>
  where the examples use it: for a Source in its canonical pose, and for an incoming
  rotation about the existing axis.
\<close>

lemma compose_example_canonical:
  "x \<noteq> (0, 0, 0) \<Longrightarrow> composes_at compose_example 0 x b y"
  by (simp add: composes_at_def compose_example_def rotateVector_def vnorm_zero_iff)

lemma rodrigues_same_axis:
  assumes k: "dot k k = 1" and a: "ca * ca + sa * sa = 1" and b: "cb * cb + sb * sb = 1"
  shows "rodrigues cb sb k (rodrigues ca sa k v) = rodrigues (ca * cb - sa * sb) (sa * cb + ca * sb) k v"
proof -
  obtain k1 k2 k3 where K: "k = (k1, k2, k3)" by (cases k)
  obtain v1 v2 v3 where V: "v = (v1, v2, v3)" by (cases v)
  from k K have k': "k1 * k1 + k2 * k2 + k3 * k3 = 1" by (simp add: dot_def)
  show ?thesis
    unfolding K V rodrigues_def vadd_def vscale_def cross_def dot_def
    apply simp
    apply (intro conjI)
    using k' a b apply algebra
    using k' a b apply algebra
    using k' a b apply algebra
    done
qed

lemma compose_example_same_axis:
  "composes_at compose_example a x b x"
proof (cases "vnorm x = 0")
  case True
  then show ?thesis by (simp add: composes_at_def compose_example_def rotateVector_def)
next
  case False
  let ?k = "vscale (1 / vnorm x) x"
  have eq: "(a + b) * pi / 180 = a * pi / 180 + b * pi / 180" by (simp add: field_simps)
  have "\<And>v. rodrigues (cos ((a + b) * pi / 180)) (sin ((a + b) * pi / 180)) ?k v =
        rodrigues (cos (b * pi / 180)) (sin (b * pi / 180)) ?k
          (rodrigues (cos (a * pi / 180)) (sin (a * pi / 180)) ?k v)"
    unfolding eq cos_add sin_add
    by (rule rodrigues_same_axis [OF unit_axis [OF False] sin_cos_squared_add3 sin_cos_squared_add3, symmetric])
  then show ?thesis
    unfolding composes_at_def
    by (cases "a = 0")
       (simp_all add: compose_example_def rotateVector_rodrigues [OF False] vsub_zero vadd_zero
          rodrigues_identity del: split_paired_All)
qed

text \<open>
  Claim C2 as stated. Three rotations about an explicit anchor that leave the position
  of a member unchanged: a rotation by 90 degrees about the y axis through
  \<open>[1, 0, 0]\<close> leaves the Source at \<open>[1, 0, 0]\<close> where it is; a rotation by 360
  degrees leaves the Source at the origin where it is; a rotation by 180 degrees of a
  collection that holds the same Source twice rotates it twice and brings it back.
  And a call with the axis \<open>[0, 0, 0]\<close> raises and changes neither position nor
  orientation.
\<close>

theorem C2_rotate_counterexample:
  "fst (Collection_rotate compose_example st_rotate 90 (0, 1, 0) (AnchorPoint (1, 0, 0))) = None
 \<and> position (heap (snd (Collection_rotate compose_example st_rotate 90 (0, 1, 0) (AnchorPoint (1, 0, 0)))) 2)
     = position (heap st_rotate 2)
 \<and> fst (Collection_rotate compose_example st_rotate 360 (0, 1, 0) (AnchorPoint (1, 0, 0))) = None
 \<and> position (heap (snd (Collection_rotate compose_example st_rotate 360 (0, 1, 0) (AnchorPoint (1, 0, 0)))) 0)
     = position (heap st_rotate 0)
 \<and> fst (Collection_rotate compose_example st_twice 180 (0, 1, 0) (AnchorPoint (1, 0, 0))) = None
 \<and> position (heap (snd (Collection_rotate compose_example st_twice 180 (0, 1, 0) (AnchorPoint (1, 0, 0)))) 0)
     = position (heap st_twice 0)
 \<and> Collection_rotate compose_example st_rotate 90 (0, 0, 0) SelfPosition = (Some DegenerateAxisError, st_rotate)"
  by (simp add: Collection_rotate_def st_rotate_def st_twice_def source_at_def source_rotate_def
      compose_example_def rotateVector_def Let_def vsub_def vscale_def cross_def dot_def vadd_def vnorm_def)

text \<open>
  Claim C2, amended: for a collection without repeated members in which each member
  rotates rigidly (its axis is not zero and its new orientation stands for the
  composed rotation), and for a rotation with a non-zero axis and an angle that is
  not a multiple of 360 degrees: \<open>rotate\<close> with the default self-anchor changes
  the orientation (angle, axis) of every member and leaves its position unchanged;
  \<open>rotate\<close> with an explicit anchor \<open>P\<close> changes the orientation of every member,
  sets its position to \<open>rotateVector(position, angle, axis, P)\<close>, and this changes
  the position of exactly the members that are not on the rotation axis through
  \<open>P\<close>. Sources outside the collection are untouched.
\<close>

theorem C2_rotate:
  assumes ax: "ax \<noteq> (0, 0, 0)"
    and ang: "cos (ang * pi / 180) \<noteq> 1"
    and dist: "distinct (sources st)"
    and rigid: "\<forall>r \<in> set (sources st). axis (heap st r) \<noteq> (0, 0, 0)
                  \<and> composes_at co (angle (heap st r)) (axis (heap st r)) ang ax"
  shows "(\<exists>st'. Collection_rotate co st ang ax SelfPosition = (None, st')
            \<and> sources st' = sources st
            \<and> (\<forall>r \<in> set (sources st).
                  position (heap st' r) = position (heap st r)
                \<and> (angle (heap st' r), axis (heap st' r)) = co (angle (heap st r)) (axis (heap st r)) ang ax
                \<and> (angle (heap st' r), axis (heap st' r)) \<noteq> (angle (heap st r), axis (heap st r)))
            \<and> (\<forall>r. r \<notin> set (sources st) \<longrightarrow> heap st' r = heap st r))
       \<and> (\<exists>st'. Collection_rotate co st ang ax (AnchorPoint P) = (None, st')
            \<and> sources st' = sources st
            \<and> (\<forall>r \<in> set (sources st).
                  rotateVector (position (heap st r)) ang ax P = Inr (position (heap st' r))
                \<and> (position (heap st' r) = position (heap st r)
                      \<longleftrightarrow> (\<exists>l. vsub (position (heap st r)) P = vscale l ax))
                \<and> (angle (heap st' r), axis (heap st' r)) = co (angle (heap st r)) (axis (heap st r)) ang ax
                \<and> (angle (heap st' r), axis (heap st' r)) \<noteq> (angle (heap st r), axis (heap st r)))
            \<and> (\<forall>r. r \<notin> set (sources st) \<longrightarrow> heap st' r = heap st r))"
proof -
  from ax have nz: "vnorm ax \<noteq> 0" by (simp add: vnorm_zero_iff)
  have member: "\<And>anch s' r. source_rotate co (heap st r) ang ax anch = Inr s' \<Longrightarrow> r \<in> set (sources st) \<Longrightarrow>
      rotateVector (position (heap st r)) ang ax
         (case anch of SelfPosition \<Rightarrow> position (heap st r) | AnchorPoint q \<Rightarrow> q) = Inr (position s')
    \<and> (angle s', axis s') = co (angle (heap st r)) (axis (heap st r)) ang ax
    \<and> (angle s', axis s') \<noteq> (angle (heap st r), axis (heap st r))"
  proof -
    fix anch s' r
    assume e: "source_rotate co (heap st r) ang ax anch = Inr s'" and r: "r \<in> set (sources st)"
    from source_rotate_ok [OF nz, where s = "heap st r" and anch = anch and co = co and ang = ang] e
    have p: "rotateVector (position (heap st r)) ang ax
         (case anch of SelfPosition \<Rightarrow> position (heap st r) | AnchorPoint q \<Rightarrow> q) = Inr (position s')"
      and o: "(angle s', axis s') = co (angle (heap st r)) (axis (heap st r)) ang ax"
      by auto
    from rigid r have "axis (heap st r) \<noteq> (0, 0, 0)"
      and "composes_at co (angle (heap st r)) (axis (heap st r)) ang ax" by blast+
    from orientation_changes [OF ax ang this]
    have "co (angle (heap st r)) (axis (heap st r)) ang ax \<noteq> (angle (heap st r), axis (heap st r))" .
    with p o show "rotateVector (position (heap st r)) ang ax
         (case anch of SelfPosition \<Rightarrow> position (heap st r) | AnchorPoint q \<Rightarrow> q) = Inr (position s')
    \<and> (angle s', axis s') = co (angle (heap st r)) (axis (heap st r)) ang ax
    \<and> (angle s', axis s') \<noteq> (angle (heap st r), axis (heap st r))"
      by metis
  qed
  have self: "\<exists>st'. Collection_rotate co st ang ax SelfPosition = (None, st')
            \<and> sources st' = sources st
            \<and> (\<forall>r \<in> set (sources st).
                  position (heap st' r) = position (heap st r)
                \<and> (angle (heap st' r), axis (heap st' r)) = co (angle (heap st r)) (axis (heap st r)) ang ax
                \<and> (angle (heap st' r), axis (heap st' r)) \<noteq> (angle (heap st r), axis (heap st r)))
            \<and> (\<forall>r. r \<notin> set (sources st) \<longrightarrow> heap st' r = heap st r)"
  proof -
    from rotate_loop_ok [OF nz, where co = co and h = "heap st" and ss = "sources st" and ang = ang
        and anch = SelfPosition] dist
    obtain h' where run: "rotate_loop co (heap st) (sources st) ang ax SelfPosition = (None, h')"
      and out: "\<forall>r. r \<notin> set (sources st) \<longrightarrow> h' r = heap st r"
      and inn: "\<forall>r \<in> set (sources st). source_rotate co (heap st r) ang ax SelfPosition = Inr (h' r)"
      by blast
    let ?st' = "st\<lparr>heap := h'\<rparr>"
    have hs: "heap ?st' = h'" and ss: "sources ?st' = sources st" by simp_all
    from run have res: "Collection_rotate co st ang ax SelfPosition = (None, ?st')"
      by (simp add: Collection_rotate_def)
    have "\<forall>r \<in> set (sources st).
                  position (h' r) = position (heap st r)
                \<and> (angle (h' r), axis (h' r)) = co (angle (heap st r)) (axis (heap st r)) ang ax
                \<and> (angle (h' r), axis (h' r)) \<noteq> (angle (heap st r), axis (heap st r))"
    proof
      fix r assume r: "r \<in> set (sources st)"
      with inn have "source_rotate co (heap st r) ang ax SelfPosition = Inr (h' r)" by blast
      from member [OF this r]
      have o: "(angle (h' r), axis (h' r)) = co (angle (heap st r)) (axis (heap st r)) ang ax"
        and c: "(angle (h' r), axis (h' r)) \<noteq> (angle (heap st r), axis (heap st r))"
        by blast+
      have p: "position (h' r) = position (heap st r)"
        by (rule rotate_loop_self_position [OF run])
      from p o c
      show "position (h' r) = position (heap st r)
                \<and> (angle (h' r), axis (h' r)) = co (angle (heap st r)) (axis (heap st r)) ang ax
                \<and> (angle (h' r), axis (h' r)) \<noteq> (angle (heap st r), axis (heap st r))"
        by blast
    qed
    then have mem: "\<forall>r \<in> set (sources st).
                  position (heap ?st' r) = position (heap st r)
                \<and> (angle (heap ?st' r), axis (heap ?st' r)) = co (angle (heap st r)) (axis (heap st r)) ang ax
                \<and> (angle (heap ?st' r), axis (heap ?st' r)) \<noteq> (angle (heap st r), axis (heap st r))"
      by (simp only: hs)
    from out have rest: "\<forall>r. r \<notin> set (sources st) \<longrightarrow> heap ?st' r = heap st r"
      by (simp only: hs)
    from res ss mem rest show ?thesis by blast
  qed
  have anchored: "\<exists>st'. Collection_rotate co st ang ax (AnchorPoint P) = (None, st')
            \<and> sources st' = sources st
            \<and> (\<forall>r \<in> set (sources st).
                  rotateVector (position (heap st r)) ang ax P = Inr (position (heap st' r))
                \<and> (position (heap st' r) = position (heap st r)
                      \<longleftrightarrow> (\<exists>l. vsub (position (heap st r)) P = vscale l ax))
                \<and> (angle (heap st' r), axis (heap st' r)) = co (angle (heap st r)) (axis (heap st r)) ang ax
                \<and> (angle (heap st' r), axis (heap st' r)) \<noteq> (angle (heap st r), axis (heap st r)))
            \<and> (\<forall>r. r \<notin> set (sources st) \<longrightarrow> heap st' r = heap st r)"
  proof -
    from rotate_loop_ok [OF nz, where co = co and h = "heap st" and ss = "sources st" and ang = ang
        and anch = "AnchorPoint P"] dist
    obtain h' where run: "rotate_loop co (heap st) (sources st) ang ax (AnchorPoint P) = (None, h')"
      and out: "\<forall>r. r \<notin> set (sources st) \<longrightarrow> h' r = heap st r"
      and inn: "\<forall>r \<in> set (sources st). source_rotate co (heap st r) ang ax (AnchorPoint P) = Inr (h' r)"
      by blast
    let ?st' = "st\<lparr>heap := h'\<rparr>"
    have hs: "heap ?st' = h'" and ss: "sources ?st' = sources st" by simp_all
    from run have res: "Collection_rotate co st ang ax (AnchorPoint P) = (None, ?st')"
      by (simp add: Collection_rotate_def)
    have "\<forall>r \<in> set (sources st).
                  rotateVector (position (heap st r)) ang ax P = Inr (position (h' r))
                \<and> (position (h' r) = position (heap st r)
                      \<longleftrightarrow> (\<exists>l. vsub (position (heap st r)) P = vscale l ax))
                \<and> (angle (h' r), axis (h' r)) = co (angle (heap st r)) (axis (heap st r)) ang ax
                \<and> (angle (h' r), axis (h' r)) \<noteq> (angle (heap st r), axis (heap st r))"
    proof
      fix r assume r: "r \<in> set (sources st)"
      with inn have "source_rotate co (heap st r) ang ax (AnchorPoint P) = Inr (h' r)" by blast
      from member [OF this r]
      have p: "rotateVector (position (heap st r)) ang ax P = Inr (position (h' r))"
        and o: "(angle (h' r), axis (h' r)) = co (angle (heap st r)) (axis (heap st r)) ang ax"
        and c: "(angle (h' r), axis (h' r)) \<noteq> (angle (heap st r), axis (heap st r))"
        by (simp, blast, blast)
      from p have "position (h' r) = position (heap st r)
           \<longleftrightarrow> rotateVector (position (heap st r)) ang ax P = Inr (position (heap st r))"
        by auto
      also have "\<dots> \<longleftrightarrow> (\<exists>l. vsub (position (heap st r)) P = vscale l ax)"
        by (rule rotateVector_fixed_iff [OF ax ang])
      finally have f: "position (h' r) = position (heap st r)
                      \<longleftrightarrow> (\<exists>l. vsub (position (heap st r)) P = vscale l ax)" .
      from p f o c show "rotateVector (position (heap st r)) ang ax P = Inr (position (h' r))
                \<and> (position (h' r) = position (heap st r)
                      \<longleftrightarrow> (\<exists>l. vsub (position (heap st r)) P = vscale l ax))
                \<and> (angle (h' r), axis (h' r)) = co (angle (heap st r)) (axis (heap st r)) ang ax
                \<and> (angle (h' r), axis (h' r)) \<noteq> (angle (heap st r), axis (heap st r))"
        by blast
    qed
    then have mem: "\<forall>r \<in> set (sources st).
                  rotateVector (position (heap st r)) ang ax P = Inr (position (heap ?st' r))
                \<and> (position (heap ?st' r) = position (heap st r)
                      \<longleftrightarrow> (\<exists>l. vsub (position (heap st r)) P = vscale l ax))
                \<and> (angle (heap ?st' r), axis (heap ?st' r)) = co (angle (heap st r)) (axis (heap st r)) ang ax
                \<and> (angle (heap ?st' r), axis (heap ?st' r)) \<noteq> (angle (heap st r), axis (heap st r))"
      by (simp only: hs)
    from out have rest: "\<forall>r. r \<notin> set (sources st) \<longrightarrow> heap ?st' r = heap st r"
      by (simp only: hs)
    from res ss mem rest show ?thesis by blast
  qed
  from self anchored show ?thesis by (rule conjI)
qed

theorem C2_rotate_witness:
  "(0, 1, 0) \<noteq> ((0, 0, 0) :: vec3) \<and> cos (90 * pi / 180) \<noteq> (1 :: real)
 \<and> distinct (sources st_rotate)
 \<and> axis (heap st_rotate 0) \<noteq> (0, 0, 0)
 \<and> composes_at compose_example (angle (heap st_rotate 0)) (axis (heap st_rotate 0)) 90 (0, 1, 0)
 \<and> (\<exists>st'. Collection_rotate compose_example st_rotate 90 (0, 1, 0) SelfPosition = (None, st')
        \<and> position (heap st' 0) = (0, 0, 0) \<and> position (heap st' 2) = (1, 0, 0)
        \<and> (angle (heap st' 0), axis (heap st' 0)) = (90, (0, 1, 0))
        \<and> (angle (heap st' 0), axis (heap st' 0)) \<noteq> (angle (heap st_rotate 0), axis (heap st_rotate 0)))
 \<and> (\<exists>st'. Collection_rotate compose_example st_rotate 90 (0, 1, 0) (AnchorPoint (1, 0, 0)) = (None, st')
        \<and> position (heap st' 0) = (1, 0, 1) \<and> position (heap st' 1) = (1, 0, 1)
        \<and> position (heap st' 0) \<noteq> position (heap st_rotate 0)
        \<and> position (heap st' 2) = position (heap st_rotate 2)
        \<and> (angle (heap st' 2), axis (heap st' 2)) = (90, (0, 1, 0))
        \<and> (angle (heap st' 2), axis (heap st' 2)) \<noteq> (angle (heap st_rotate 2), axis (heap st_rotate 2)))"
proof -
  have nz: "(0, 1, 0) \<noteq> ((0, 0, 0) :: vec3)" by simp
  have c1: "cos (90 * pi / 180) \<noteq> (1 :: real)" by simp
  have d: "distinct (sources st_rotate)" by (simp add: st_rotate_def)
  have pose: "\<And>r. angle (heap st_rotate r) = 0" "\<And>r. axis (heap st_rotate r) = (0, 0, 1)"
    by (simp_all add: st_rotate_def source_at_def)
  have p0: "position (heap st_rotate 0) = (0, 0, 0)" "position (heap st_rotate 1) = (0, 0, 0)"
    "position (heap st_rotate 2) = (1, 0, 0)"
    by (simp_all add: st_rotate_def source_at_def)
  have mem: "0 \<in> set (sources st_rotate)" "1 \<in> set (sources st_rotate)" "2 \<in> set (sources st_rotate)"
    by (simp_all add: st_rotate_def)
  have a0: "axis (heap st_rotate 0) \<noteq> (0, 0, 0)" by (simp add: pose)
  have comp: "\<And>r. composes_at compose_example (angle (heap st_rotate r)) (axis (heap st_rotate r)) 90 (0, 1, 0)"
    unfolding pose by (rule compose_example_canonical) simp
  have rigid: "\<forall>r \<in> set (sources st_rotate). axis (heap st_rotate r) \<noteq> (0, 0, 0)
      \<and> composes_at compose_example (angle (heap st_rotate r)) (axis (heap st_rotate r)) 90 (0, 1, 0)"
    using comp by (simp add: pose)
  have co0: "\<And>r. compose_example (angle (heap st_rotate r)) (axis (heap st_rotate r)) 90 (0, 1, 0) = (90, (0, 1, 0))"
    by (simp add: pose compose_example_def)
  have ex0: "rotateVector (0, 0, 0) 90 (0, 1, 0) (1, 0, 0) = Inr (1, 0, 1)"
    by (simp add: rotateVector_def Let_def vsub_def vscale_def cross_def dot_def vadd_def vnorm_def)
  note inst = C2_rotate [OF nz c1 d rigid, where P = "(1, 0, 0)"]
  from inst obtain s1 where s1:
    "Collection_rotate compose_example st_rotate 90 (0, 1, 0) SelfPosition = (None, s1)"
    "\<forall>r \<in> set (sources st_rotate).
        position (heap s1 r) = position (heap st_rotate r)
      \<and> (angle (heap s1 r), axis (heap s1 r)) =
           compose_example (angle (heap st_rotate r)) (axis (heap st_rotate r)) 90 (0, 1, 0)
      \<and> (angle (heap s1 r), axis (heap s1 r)) \<noteq> (angle (heap st_rotate r), axis (heap st_rotate r))"
    by blast
  from inst obtain s2 where s2:
    "Collection_rotate compose_example st_rotate 90 (0, 1, 0) (AnchorPoint (1, 0, 0)) = (None, s2)"
    "\<forall>r \<in> set (sources st_rotate).
        rotateVector (position (heap st_rotate r)) 90 (0, 1, 0) (1, 0, 0) = Inr (position (heap s2 r))
      \<and> (position (heap s2 r) = position (heap st_rotate r)
           \<longleftrightarrow> (\<exists>l. vsub (position (heap st_rotate r)) (1, 0, 0) = vscale l (0, 1, 0)))
      \<and> (angle (heap s2 r), axis (heap s2 r)) =
           compose_example (angle (heap st_rotate r)) (axis (heap st_rotate r)) 90 (0, 1, 0)
      \<and> (angle (heap s2 r), axis (heap s2 r)) \<noteq> (angle (heap st_rotate r), axis (heap st_rotate r))"
    by blast
  from s1(2) mem(1) have "position (heap s1 0) = position (heap st_rotate 0)"
    and o1: "(angle (heap s1 0), axis (heap s1 0)) =
           compose_example (angle (heap st_rotate 0)) (axis (heap st_rotate 0)) 90 (0, 1, 0)"
    and n1: "(angle (heap s1 0), axis (heap s1 0)) \<noteq> (angle (heap st_rotate 0), axis (heap st_rotate 0))"
    by blast+
  then have q1: "position (heap s1 0) = (0, 0, 0)" by (simp only: p0)
  from s1(2) mem(3) have "position (heap s1 2) = position (heap st_rotate 2)" by blast
  then have q1b: "position (heap s1 2) = (1, 0, 0)" by (simp only: p0)
  from o1 have o1': "(angle (heap s1 0), axis (heap s1 0)) = (90, (0, 1, 0))" by (simp only: co0)
  from s2(2) mem(1) have "rotateVector (position (heap st_rotate 0)) 90 (0, 1, 0) (1, 0, 0)
      = Inr (position (heap s2 0))" by blast
  with ex0 p0(1) have q0: "position (heap s2 0) = (1, 0, 1)" by simp
  from s2(2) mem(2) have "rotateVector (position (heap st_rotate 1)) 90 (0, 1, 0) (1, 0, 0)
      = Inr (position (heap s2 1))" by blast
  with ex0 p0(2) have q1': "position (heap s2 1) = (1, 0, 1)" by simp
  from q0 p0(1) have q0n: "position (heap s2 0) \<noteq> position (heap st_rotate 0)" by simp
  have "vsub (position (heap st_rotate 2)) (1, 0, 0) = vscale 0 (0, 1, 0)"
    by (simp add: p0 vsub_def vscale_def)
  then have "\<exists>l. vsub (position (heap st_rotate 2)) (1, 0, 0) = vscale l (0, 1, 0)" ..
  with s2(2) mem(3) have q2: "position (heap s2 2) = position (heap st_rotate 2)" by blast
  from s2(2) mem(3) have o2: "(angle (heap s2 2), axis (heap s2 2)) =
           compose_example (angle (heap st_rotate 2)) (axis (heap st_rotate 2)) 90 (0, 1, 0)"
    and n2: "(angle (heap s2 2), axis (heap s2 2)) \<noteq> (angle (heap st_rotate 2), axis (heap st_rotate 2))"
    by blast+
  from o2 have o2': "(angle (heap s2 2), axis (heap s2 2)) = (90, (0, 1, 0))" by (simp only: co0)
  from s1(1) q1 q1b o1' n1 have A: "\<exists>st'. Collection_rotate compose_example st_rotate 90 (0, 1, 0) SelfPosition = (None, st')
        \<and> position (heap st' 0) = (0, 0, 0) \<and> position (heap st' 2) = (1, 0, 0)
        \<and> (angle (heap st' 0), axis (heap st' 0)) = (90, (0, 1, 0))
        \<and> (angle (heap st' 0), axis (heap st' 0)) \<noteq> (angle (heap st_rotate 0), axis (heap st_rotate 0))"
    by blast
  from s2(1) q0 q1' q0n q2 o2' n2 have B: "\<exists>st'. Collection_rotate compose_example st_rotate 90 (0, 1, 0) (AnchorPoint (1, 0, 0)) = (None, st')
        \<and> position (heap st' 0) = (1, 0, 1) \<and> position (heap st' 1) = (1, 0, 1)
        \<and> position (heap st' 0) \<noteq> position (heap st_rotate 0)
        \<and> position (heap st' 2) = position (heap st_rotate 2)
        \<and> (angle (heap st' 2), axis (heap st' 2)) = (90, (0, 1, 0))
        \<and> (angle (heap st' 2), axis (heap st' 2)) \<noteq> (angle (heap st_rotate 2), axis (heap st_rotate 2))"
    by blast
  from nz c1 d a0 comp [of 0] A B show ?thesis by blast
qed

end
